theory Spec2Isabelle
  imports Complex_Main
begin

section \<open>Python exceptions and the metric surfaces\<close>

text \<open>
  The exporter keeps its metrics in module-level objects of the pull-metrics library
  (\<^verbatim>\<open>TASKS\<close>, \<^verbatim>\<open>TASKS_NAME\<close>, \<^verbatim>\<open>TASKS_RUNTIME\<close>, \<^verbatim>\<open>WORKERS\<close>, \<^verbatim>\<open>LATENCY\<close>,
  \<^verbatim>\<open>QUEUE_SIZE\<close>, \<^verbatim>\<open>QUEUE_TASKS\<close>). Every exception the source can raise is a value of
  \<open>py_error\<close>; a function that can raise returns the exception (or \<open>None\<close>) together
  with the state it leaves behind, since Python keeps the mutations made before a raise.
\<close>

datatype py_error = KeyError | AttributeError | TypeError | ValueError | BrokerError
  | JSONDecodeError | UnicodeDecodeError

text \<open>
  A labelled gauge is a dictionary from label tuples to values: a label tuple is in the
  domain once a child has been created for it by \<^verbatim>\<open>labels(...)\<close>, and stays there (the
  library never forgets a child). All values this program writes are whole numbers.
  \<^verbatim>\<open>labels(l).inc()\<close> creates the child at 0 when it is new and adds 1;
  \<^verbatim>\<open>labels(l).set(v)\<close> overwrites.
\<close>

type_synonym 'l gauge = "'l \<rightharpoonup> int"

definition gauge_value :: "'l gauge \<Rightarrow> 'l \<Rightarrow> int" where
  "gauge_value g l = (case g l of None \<Rightarrow> 0 | Some v \<Rightarrow> v)"

definition gauge_inc :: "'l gauge \<Rightarrow> 'l \<Rightarrow> 'l gauge" where
  "gauge_inc g l = g(l \<mapsto> gauge_value g l + 1)"


text \<open>
  Modelled from the spec: the task states of the broker library (\<^verbatim>\<open>celery.states\<close> is
  not part of the sources). The spec's lifecycle vocabulary is
  \<^verbatim>\<open>RECEIVED, STARTED, SUCCEEDED, FAILED, RETRIED, REVOKED, REJECTED\<close>.
\<close>

datatype celery_state = RECEIVED | STARTED | SUCCEEDED | FAILED | RETRIED | REVOKED | REJECTED

text \<open>
  Modelled from the spec: \<^verbatim>\<open>celery.states.READY_STATES\<close>, the terminal states
  (``\<^verbatim>\<open>SUCCEEDED, FAILED, REVOKED, REJECTED\<close> are terminal''), and
  \<^verbatim>\<open>celery.states.ALL_STATES\<close> (``all known task-state values'').
\<close>

definition READY_STATES :: "celery_state set" where
  "READY_STATES = {SUCCEEDED, FAILED, REVOKED, REJECTED}"

definition ALL_STATES :: "celery_state set" where
  "ALL_STATES = {RECEIVED, STARTED, SUCCEEDED, FAILED, RETRIED, REVOKED, REJECTED}"

text \<open>
  Modelled from the spec: one record of the task registry (\<^verbatim>\<open>celery.events.state.Task\<close>),
  with the three attributes the exporter reads: \<^verbatim>\<open>state\<close>, \<^verbatim>\<open>name\<close> (optional) and
  \<^verbatim>\<open>local_received\<close>, the local-receipt timestamp of the last event applied to it.
\<close>

record task =
  t_state :: celery_state
  t_name :: "string option"
  t_local_received :: real

text \<open>
  The state of the process: the attributes of \<^verbatim>\<open>MonitorThread\<close> (the registry
  \<^verbatim>\<open>self._state.tasks\<close> in insertion order, oldest first, its capacity, and the two sets
  of labels seen so far) and the module-level metrics. A histogram is the list of its
  observations in the order they were made.
\<close>

record exporter =
  tasks :: "(string \<times> task) list"
  max_tasks_in_memory :: nat
  known_states :: "celery_state set"
  known_states_names :: "(celery_state \<times> string) set"
  TASKS :: "celery_state gauge"
  TASKS_NAME :: "(celery_state \<times> string) gauge"
  TASKS_RUNTIME :: "(string \<times> real) list"
  WORKERS :: int
  LATENCY :: "real list"
  QUEUE_SIZE :: "string gauge"
  QUEUE_TASKS :: "(string \<times> string) gauge"

section \<open>Events and the event classifier\<close>

text \<open>
  An event is a Python dictionary. \<^verbatim>\<open>type\<close> is always there (the receiver dispatches
  on it); the other keys the exporter reads may be missing, and \<^verbatim>\<open>evt['uuid']\<close> or
  \<^verbatim>\<open>evt['local_received']\<close> then raises \<^verbatim>\<open>KeyError\<close>.
\<close>

record event =
  e_type :: string
  e_uuid :: "string option"
  e_local_received :: "real option"
  e_name :: "string option"
  e_runtime :: "real option"

text \<open>
  Modelled from the spec: \<^verbatim>\<open>celery.events.group_from\<close> (the part of the type before the
  first dash; a task event's type is \<^verbatim>\<open>task-\<close> followed by its sub-type) and the table
  \<^verbatim>\<open>celery.events.state.TASK_EVENT_TO_STATE\<close> from sub-types to lifecycle states.
\<close>

definition group_from :: "string \<Rightarrow> string" where
  "group_from type = takeWhile (\<lambda>c. c \<noteq> CHR ''-'') type"

definition TASK_EVENT_TO_STATE :: "string \<rightharpoonup> celery_state" where
  "TASK_EVENT_TO_STATE = map_of
     [(''received'', RECEIVED), (''started'', STARTED), (''succeeded'', SUCCEEDED),
      (''failed'', FAILED), (''retried'', RETRIED), (''revoked'', REVOKED),
      (''rejected'', REJECTED)]"

section \<open>The task registry\<close>

text \<open>
  Modelled from the spec: the registry \<^verbatim>\<open>self._state\<close> (\<^verbatim>\<open>celery.events.State\<close>, not
  part of the sources). \<^verbatim>\<open>tasks.pop(uuid)\<close> removes the record of an id.
  \<^verbatim>\<open>_event(evt)\<close> is the spec's upsert for a non-terminal event: the state is always
  overwritten, the name is set only when the event supplies one, the timestamp is the
  event's; a new id is appended, after the single oldest entry has been evicted if the
  insertion would exceed the capacity. An event missing a required field is dropped.
\<close>

definition registry_pop :: "string \<Rightarrow> (string \<times> task) list \<Rightarrow> (string \<times> task) list" where
  "registry_pop u ts = filter (\<lambda>kv. fst kv \<noteq> u) ts"

definition state_event :: "event \<Rightarrow> exporter \<Rightarrow> exporter" where
  "state_event evt s =
     (case (e_uuid evt, e_local_received evt, TASK_EVENT_TO_STATE (drop 5 (e_type evt))) of
        (Some u, Some lr, Some st) \<Rightarrow>
          (case map_of (tasks s) u of
             Some t \<Rightarrow>
               s\<lparr>tasks := map (\<lambda>kv. if fst kv = u
                    then (u, t\<lparr>t_state := st,
                               t_name := (case e_name evt of Some n \<Rightarrow> Some n | None \<Rightarrow> t_name t),
                               t_local_received := lr\<rparr>)
                    else kv) (tasks s)\<rparr>
           | None \<Rightarrow>
               s\<lparr>tasks := (if max_tasks_in_memory s < length (tasks s) + 1
                            then tl (tasks s) else tasks s)
                          @ [(u, \<lparr>t_state = st, t_name = e_name evt, t_local_received = lr\<rparr>)]\<rparr>)
      | _ \<Rightarrow> s)"

section \<open>MonitorThread\<close>

text \<open>
  The library turns every label value into text with \<^verbatim>\<open>str\<close>; the name of a record
  that never got one is Python's \<^verbatim>\<open>None\<close>, which becomes the text \<^verbatim>\<open>None\<close>.
\<close>

definition label_of_name :: "string option \<Rightarrow> string" where
  "label_of_name n = (case n of None \<Rightarrow> ''None'' | Some x \<Rightarrow> x)"

text \<open>
  \<^verbatim>\<open>_observe_latency\<close>: the lookup \<^verbatim>\<open>self._state.tasks[evt['uuid']]\<close> is inside the
  \<^verbatim>\<open>try\<close>, so a missing \<^verbatim>\<open>uuid\<close> key and an unknown id both end in \<^verbatim>\<open>pass\<close>; the
  subtraction is in the \<^verbatim>\<open>else\<close> branch, where a missing \<^verbatim>\<open>local_received\<close> key
  raises.
\<close>

definition observe_latency :: "event \<Rightarrow> exporter \<Rightarrow> py_error option \<times> exporter" where
  "observe_latency evt s =
     (case (case e_uuid evt of None \<Rightarrow> None | Some u \<Rightarrow> map_of (tasks s) u) of
        None \<Rightarrow> (None, s)
      | Some prev_evt \<Rightarrow>
          if t_state prev_evt = RECEIVED then
            (case e_local_received evt of
               None \<Rightarrow> (Some KeyError, s)
             | Some lr \<Rightarrow> (None, s\<lparr>LATENCY := LATENCY s @ [lr - t_local_received prev_evt]\<rparr>))
          else (None, s))"

text \<open>
  \<^verbatim>\<open>_incr_ready_task\<close>: the increment of \<^verbatim>\<open>TASKS\<close> comes before the \<^verbatim>\<open>try\<close>; the
  \<^verbatim>\<open>KeyError\<close> of a missing \<^verbatim>\<open>uuid\<close> key or of an unknown id is swallowed.
\<close>

definition incr_ready_task :: "event \<Rightarrow> celery_state \<Rightarrow> exporter \<Rightarrow> exporter" where
  "incr_ready_task evt state s =
     (let s1 = s\<lparr>TASKS := gauge_inc (TASKS s) state\<rparr> in
      case (case e_uuid evt of None \<Rightarrow> None
            | Some u \<Rightarrow> map_option (Pair u) (map_of (tasks s1) u)) of
        None \<Rightarrow> s1
      | Some (u, event) \<Rightarrow>
          (let s2 = s1\<lparr>tasks := registry_pop u (tasks s1)\<rparr>;
               s3 = s2\<lparr>TASKS_NAME :=
                         gauge_inc (TASKS_NAME s2) (state, label_of_name (t_name event))\<rparr>
           in case e_runtime evt of
                None \<Rightarrow> s3
              | Some r \<Rightarrow>
                  s3\<lparr>TASKS_RUNTIME := TASKS_RUNTIME s3 @ [(label_of_name (t_name event), r)]\<rparr>))"

text \<open>
  \<^verbatim>\<open>_collect_unready_tasks\<close>: \<^verbatim>\<open>cnt\<close> counts the registry's records by state; every
  state ever seen is overwritten with its count (0 when absent). The second pass does
  the same for the (state, name) pairs of the records whose name is truthy (neither
  \<^verbatim>\<open>None\<close> nor empty).
\<close>

definition unready_states :: "exporter \<Rightarrow> celery_state list" where
  "unready_states s = map (\<lambda>kv. t_state (snd kv)) (tasks s)"

definition unready_states_names :: "exporter \<Rightarrow> (celery_state \<times> string) list" where
  "unready_states_names s =
     concat (map (\<lambda>kv. case t_name (snd kv) of
                          None \<Rightarrow> []
                        | Some n \<Rightarrow> if n = [] then [] else [(t_state (snd kv), n)]) (tasks s))"

definition collect_unready_tasks :: "exporter \<Rightarrow> exporter" where
  "collect_unready_tasks s =
     (let cnt = unready_states s;
          ks = known_states s \<union> set cnt;
          cnt2 = unready_states_names s;
          ksn = known_states_names s \<union> set cnt2
      in s\<lparr>known_states := ks,
           TASKS := (\<lambda>l. if l \<in> ks then Some (int (count_list cnt l)) else TASKS s l),
           known_states_names := ksn,
           TASKS_NAME := (\<lambda>l. if l \<in> ksn then Some (int (count_list cnt2 l))
                               else TASKS_NAME s l)\<rparr>)"

definition collect_tasks :: "event \<Rightarrow> celery_state \<Rightarrow> exporter \<Rightarrow> exporter" where
  "collect_tasks evt state s =
     collect_unready_tasks
       (if state \<in> READY_STATES then incr_ready_task evt state s else state_event evt s)"

text \<open>
  \<^verbatim>\<open>_process_event\<close>: only events of the task group are looked at. The table lookup
  raises \<^verbatim>\<open>KeyError\<close> on an unknown sub-type (only \<^verbatim>\<open>AttributeError\<close> is caught there).
\<close>

definition process_event :: "event \<Rightarrow> exporter \<Rightarrow> py_error option \<times> exporter" where
  "process_event evt s =
     (if group_from (e_type evt) = ''task'' then
        (case TASK_EVENT_TO_STATE (drop 5 (e_type evt)) of
           None \<Rightarrow> (Some KeyError, s)
         | Some state \<Rightarrow>
             (if state = STARTED then
                (case observe_latency evt s of
                   (Some exc, s1) \<Rightarrow> (Some exc, s1)
                 | (None, s1) \<Rightarrow> (None, collect_tasks evt state s1))
              else (None, collect_tasks evt state s)))
      else (None, s))"

text \<open>
  \<^verbatim>\<open>recv.capture\<close> hands the events to \<^verbatim>\<open>_process_event\<close> one at a time, in delivery
  order, until a handler raises; the exception then leaves \<^verbatim>\<open>capture\<close>.
\<close>

fun capture :: "event list \<Rightarrow> exporter \<Rightarrow> py_error option \<times> exporter" where
  "capture [] s = (None, s)"
| "capture (evt # evts) s =
     (case process_event evt s of
        (Some exc, s1) \<Rightarrow> (Some exc, s1)
      | (None, s1) \<Rightarrow> capture evts s1)"

text \<open>
  The state of a \<^verbatim>\<open>MonitorThread\<close> right after \<^verbatim>\<open>__init__\<close>: an empty registry of the
  given capacity and empty label sets, beside whatever the metrics hold.
\<close>

definition new_monitor :: "nat \<Rightarrow> exporter \<Rightarrow> exporter" where
  "new_monitor cap s = s\<lparr>tasks := [], max_tasks_in_memory := cap,
                          known_states := {}, known_states_names := {}\<rparr>"

definition no_metrics :: exporter where
  "no_metrics = \<lparr>tasks = [], max_tasks_in_memory = 10000, known_states = {},
                 known_states_names = {}, TASKS = Map.empty, TASKS_NAME = Map.empty,
                 TASKS_RUNTIME = [], WORKERS = 0, LATENCY = [],
                 QUEUE_SIZE = Map.empty, QUEUE_TASKS = Map.empty\<rparr>"

text \<open>
  The registry invariant of the spec's data model (a record stays in the registry only
  while its task is not terminal), extended to the two label sets, which only ever
  receive states read from the registry.
\<close>

definition registry_inv :: "exporter \<Rightarrow> bool" where
  "registry_inv s \<longleftrightarrow>
     set (unready_states s) \<inter> READY_STATES = {}
     \<and> known_states s \<inter> READY_STATES = {}
     \<and> fst ` known_states_names s \<inter> READY_STATES = {}"

section \<open>Baseline initialisation and the monitor loop\<close>

text \<open>
  \<^verbatim>\<open>_reset_metrics\<close>: every sample the metric has published is set to 0, unless a set
  of known labels is given and the sample's label tuple is in it.
\<close>

definition reset_metrics :: "'l gauge \<Rightarrow> 'l set option \<Rightarrow> 'l gauge" where
  "reset_metrics metrics known_labels =
     (\<lambda>labels. case metrics labels of
                  None \<Rightarrow> None
                | Some v \<Rightarrow>
                    (case known_labels of
                       Some known \<Rightarrow> if labels \<notin> known then Some 0 else Some v
                     | None \<Rightarrow> Some 0))"

text \<open>
  A queue descriptor is a dictionary with text values. The two arguments of
  \<^verbatim>\<open>setup_metrics\<close> are what \<^verbatim>\<open>inspect.registered_tasks().values()\<close> and
  \<^verbatim>\<open>inspect.active_queues().values()\<close> did: the mapping from workers to lists, or the
  exception raised (an answer of \<^verbatim>\<open>None\<close> raises \<^verbatim>\<open>AttributeError\<close> at
  \<^verbatim>\<open>.values()\<close>).
\<close>

type_synonym queue_descr = "(string \<times> string) list"

definition setup_metrics ::
  "py_error + (string \<times> string list) list \<Rightarrow> py_error + (string \<times> queue_descr list) list
     \<Rightarrow> exporter \<Rightarrow> exporter" where
  "setup_metrics registered active s =
     (let s1 = s\<lparr>WORKERS := 0\<rparr> in
      case (registered, active) of
        (Inr registered_tasks, Inr active_queues) \<Rightarrow>
          s1\<lparr>TASKS := (\<lambda>state. if state \<in> ALL_STATES then Some 0 else TASKS s1 state),
             TASKS_NAME := (\<lambda>l. if fst l \<in> ALL_STATES
                                     \<and> snd l \<in> set (concat (map snd registered_tasks))
                                  then Some 0 else TASKS_NAME s1 l)\<rparr>
      | _ \<Rightarrow> s1\<lparr>TASKS := reset_metrics (TASKS s1) None,
                 TASKS_NAME := reset_metrics (TASKS_NAME s1) None\<rparr>)"

text \<open>
  One pass of the \<^verbatim>\<open>while True\<close> loop of \<^verbatim>\<open>_monitor\<close>. A session records what the
  broker did in that pass: whether \<^verbatim>\<open>self._app.connection()\<close> raised, the introspection
  answers for the \<^verbatim>\<open>setup_metrics\<close> call before \<^verbatim>\<open>capture\<close>, the events delivered, the
  exception that ended \<^verbatim>\<open>capture\<close> after them if no handler raised first (\<open>None\<close>:
  \<^verbatim>\<open>capture\<close> returned), and the introspection answers for the \<^verbatim>\<open>setup_metrics\<close> call
  of the \<^verbatim>\<open>except\<close> branch. The loop itself never returns; \<open>monitor\<close> runs its first
  passes, one per session given.
\<close>

record session =
  connection :: "py_error option"
  registered_on_connect :: "py_error + (string \<times> string list) list"
  active_on_connect :: "py_error + (string \<times> queue_descr list) list"
  delivered :: "event list"
  stream_failure :: "py_error option"
  registered_on_failure :: "py_error + (string \<times> string list) list"
  active_on_failure :: "py_error + (string \<times> queue_descr list) list"

definition monitor_iteration :: "session \<Rightarrow> exporter \<Rightarrow> exporter" where
  "monitor_iteration x s =
     (case connection x of
        Some exc \<Rightarrow> setup_metrics (registered_on_failure x) (active_on_failure x) s
      | None \<Rightarrow>
          (case capture (delivered x)
                  (setup_metrics (registered_on_connect x) (active_on_connect x) s) of
             (Some exc, s2) \<Rightarrow>
               setup_metrics (registered_on_failure x) (active_on_failure x) s2
           | (None, s2) \<Rightarrow>
               (case stream_failure x of
                  Some exc \<Rightarrow> setup_metrics (registered_on_failure x) (active_on_failure x) s2
                | None \<Rightarrow> s2)))"

fun monitor :: "session list \<Rightarrow> exporter \<Rightarrow> exporter" where
  "monitor [] s = s"
| "monitor (x # xs) s = monitor xs (monitor_iteration x s)"

section \<open>WorkerMonitoringThread\<close>

text \<open>
  \<^verbatim>\<open>update_workers_count\<close>: the argument is what \<^verbatim>\<open>self._app.control.ping(timeout=5)\<close>
  did, the list of replies or the exception it raised. The \<^verbatim>\<open>except Exception\<close> branch
  only logs.
\<close>

definition update_workers_count :: "py_error + string list \<Rightarrow> exporter \<Rightarrow> exporter" where
  "update_workers_count ping s =
     (case ping of
        Inr replies \<Rightarrow> s\<lparr>WORKERS := int (length replies)\<rparr>
      | Inl exc \<Rightarrow> s)"

section \<open>QueueMonitoringThread\<close>

text \<open>
  \<^verbatim>\<open>get_queue_names\<close>: the argument is what
  \<^verbatim>\<open>self._app.control.inspect().active_queues()\<close> did. The nested loop appends
  \<^verbatim>\<open>queue['name']\<close> to \<^verbatim>\<open>names\<close>, node after node.
\<close>

fun node_names :: "queue_descr list \<Rightarrow> string list \<Rightarrow> py_error + string list" where
  "node_names [] names = Inr names"
| "node_names (queue # node) names =
     (case map_of queue ''name'' of
        None \<Rightarrow> Inl KeyError
      | Some n \<Rightarrow> node_names node (names @ [n]))"

fun nodes_names :: "queue_descr list list \<Rightarrow> string list \<Rightarrow> py_error + string list" where
  "nodes_names [] names = Inr names"
| "nodes_names (node # active_queues) names =
     (case node_names node names of
        Inl exc \<Rightarrow> Inl exc
      | Inr names' \<Rightarrow> nodes_names active_queues names')"

definition get_queue_names ::
  "py_error + (string \<times> queue_descr list) list \<Rightarrow> py_error + string list" where
  "get_queue_names active =
     (case active of
        Inl exc \<Rightarrow> Inl exc
      | Inr active_queues \<Rightarrow> nodes_names (map snd active_queues) [])"

















section \<open>Concrete events and states\<close>

text \<open>Inputs at which the theorems below are instantiated.\<close>

definition succeeded_evt :: event where
  "succeeded_evt = \<lparr>e_type = ''task-succeeded'', e_uuid = Some ''id1'',
                     e_local_received = Some 7, e_name = None, e_runtime = Some 2\<rparr>"


definition received_evt :: event where
  "received_evt = \<lparr>e_type = ''task-received'', e_uuid = Some ''id1'',
                    e_local_received = Some 1, e_name = Some ''add'', e_runtime = None\<rparr>"

definition retried_evt :: event where
  "retried_evt = \<lparr>e_type = ''task-retried'', e_uuid = Some ''id1'',
                   e_local_received = Some 2, e_name = None, e_runtime = None\<rparr>"

definition started_evt :: event where
  "started_evt = \<lparr>e_type = ''task-started'', e_uuid = Some ''id1'',
                   e_local_received = Some 3, e_name = None, e_runtime = None\<rparr>"

definition full_state :: exporter where
  "full_state =
     no_metrics\<lparr>tasks := [(''id0'', \<lparr>t_state = RECEIVED, t_name = Some ''add'',
                                       t_local_received = 0\<rparr>),
                         (''id1'', \<lparr>t_state = STARTED, t_name = Some ''add'',
                                       t_local_received = 3\<rparr>)],
                max_tasks_in_memory := 2,
                known_states := {RECEIVED, STARTED},
                known_states_names := {(RECEIVED, ''add''), (STARTED, ''add'')},
                TASKS := [RECEIVED \<mapsto> 1, STARTED \<mapsto> 1, SUCCEEDED \<mapsto> 4],
                TASKS_NAME := [(RECEIVED, ''add'') \<mapsto> 1, (STARTED, ''add'') \<mapsto> 1]\<rparr>"

definition received_evt2 :: event where
  "received_evt2 = \<lparr>e_type = ''task-received'', e_uuid = Some ''id2'',
                     e_local_received = Some 5, e_name = Some ''mul'', e_runtime = None\<rparr>"


definition shared_queue :: "(string \<times> queue_descr list) list" where
  "shared_queue = [(''worker1'', [[(''name'', ''celery'')]]),
                   (''worker2'', [[(''name'', ''celery'')]])]"

definition stale_state :: exporter where
  "stale_state =
     no_metrics\<lparr>TASKS := [SUCCEEDED \<mapsto> 4],
                TASKS_NAME := [(SUCCEEDED, ''old_task'') \<mapsto> 4],
                WORKERS := 3\<rparr>"

definition lost_stream :: session where
  "lost_stream = \<lparr>connection = None,
                   registered_on_connect = Inr [(''worker1'', [''new_task''])],
                   active_on_connect = Inr [(''worker1'', [[(''name'', ''celery'')]])],
                   delivered = [],
                   stream_failure = Some BrokerError,
                   registered_on_failure = Inr [(''worker1'', [''new_task''])],
                   active_on_failure = Inr [(''worker1'', [[(''name'', ''celery'')]])]\<rparr>"

definition lost_broker :: session where
  "lost_broker = lost_stream\<lparr>registered_on_failure := Inl BrokerError,
                               active_on_failure := Inl BrokerError\<rparr>"













section \<open>Worker liveness\<close>

text \<open>
  C7. A successful liveness probe sets the workers gauge to the number of responding
  workers (three replies give 3); a probe that raises leaves the state, and so the
  workers gauge, exactly as it was.
\<close>

theorem update_workers_count_sets_or_keeps:
  "WORKERS (update_workers_count (Inr replies) s) = int (length replies)
   \<and> WORKERS (update_workers_count (Inr [w1, w2, w3]) s) = 3
   \<and> update_workers_count (Inl exc) s = s
   \<and> WORKERS (update_workers_count (Inl exc) (update_workers_count (Inr [w1, w2, w3]) s)) = 3"
  by (simp add: update_workers_count_def)

section \<open>The registry invariant and the terminal-event path\<close>

lemma incr_ready_task_absent:
  "(case e_uuid evt of None \<Rightarrow> None | Some u \<Rightarrow> map_of (tasks s) u) = None
   \<Longrightarrow> incr_ready_task evt st s = s\<lparr>TASKS := gauge_inc (TASKS s) st\<rparr>"
  by (auto simp: incr_ready_task_def Let_def split: option.splits)


lemma unready_states_names_fst:
  "fst ` set (unready_states_names s) \<subseteq> set (unready_states s)"
  by (force simp: unready_states_names_def unready_states_def image_iff split: option.splits if_splits)

lemma collect_unready_tasks_inv:
  "registry_inv s \<Longrightarrow> registry_inv (collect_unready_tasks s)"
  using unready_states_names_fst[of s]
  by (auto simp: registry_inv_def collect_unready_tasks_def Let_def unready_states_def unready_states_names_def split: option.splits if_splits)

lemma collect_unready_tasks_ready:
  "registry_inv s \<Longrightarrow> st \<in> READY_STATES \<Longrightarrow> TASKS (collect_unready_tasks s) st = TASKS s st"
  by (auto simp: registry_inv_def collect_unready_tasks_def Let_def)

lemma collect_unready_tasks_name_ready:
  "registry_inv s \<Longrightarrow> st \<in> READY_STATES \<Longrightarrow> TASKS_NAME (collect_unready_tasks s) (st, n) = TASKS_NAME s (st, n)"
  using unready_states_names_fst[of s]
  by (force simp: registry_inv_def collect_unready_tasks_def Let_def)

lemma collect_unready_tasks_other:
  "tasks (collect_unready_tasks s) = tasks s"
  "TASKS_RUNTIME (collect_unready_tasks s) = TASKS_RUNTIME s"
  "LATENCY (collect_unready_tasks s) = LATENCY s"
  "WORKERS (collect_unready_tasks s) = WORKERS s"
  "max_tasks_in_memory (collect_unready_tasks s) = max_tasks_in_memory s"
  "QUEUE_SIZE (collect_unready_tasks s) = QUEUE_SIZE s"
  "QUEUE_TASKS (collect_unready_tasks s) = QUEUE_TASKS s"
  by (simp_all add: collect_unready_tasks_def Let_def)

lemma state_event_states:
  "TASK_EVENT_TO_STATE (drop 5 (e_type evt)) = Some st
   \<Longrightarrow> set (unready_states (state_event evt s)) \<subseteq> insert st (set (unready_states s))"
proof -
  have tl: "\<And>x xs. x \<in> set (tl xs) \<Longrightarrow> x \<in> set (xs :: (string \<times> task) list)"
    by (metis list.sel(2) list.set_sel(2))
  assume "TASK_EVENT_TO_STATE (drop 5 (e_type evt)) = Some st"
  then show ?thesis
    by (auto simp: state_event_def unready_states_def image_iff
             split: option.splits if_splits dest!: tl)
qed

lemma state_event_other:
  "known_states (state_event evt s) = known_states s"
  "known_states_names (state_event evt s) = known_states_names s"
  "TASKS (state_event evt s) = TASKS s"
  "TASKS_NAME (state_event evt s) = TASKS_NAME s"
  "TASKS_RUNTIME (state_event evt s) = TASKS_RUNTIME s"
  "LATENCY (state_event evt s) = LATENCY s"
  "max_tasks_in_memory (state_event evt s) = max_tasks_in_memory s"
  by (simp_all add: state_event_def split: option.splits)

lemma state_event_inv:
  "registry_inv s \<Longrightarrow> TASK_EVENT_TO_STATE (drop 5 (e_type evt)) = Some st \<Longrightarrow> st \<notin> READY_STATES
   \<Longrightarrow> registry_inv (state_event evt s)"
  using state_event_states[of evt st s]
  by (auto simp: registry_inv_def state_event_other)

lemma incr_ready_task_inv:
  "registry_inv s \<Longrightarrow> registry_inv (incr_ready_task evt st s)"
  by (auto simp: registry_inv_def incr_ready_task_def Let_def unready_states_def registry_pop_def
           split: option.splits)

lemma observe_latency_other:
  "tasks (snd (observe_latency evt s)) = tasks s"
  "known_states (snd (observe_latency evt s)) = known_states s"
  "known_states_names (snd (observe_latency evt s)) = known_states_names s"
  "TASKS (snd (observe_latency evt s)) = TASKS s"
  "TASKS_NAME (snd (observe_latency evt s)) = TASKS_NAME s"
  "TASKS_RUNTIME (snd (observe_latency evt s)) = TASKS_RUNTIME s"
  "max_tasks_in_memory (snd (observe_latency evt s)) = max_tasks_in_memory s"
  by (simp_all add: observe_latency_def split: option.splits)

lemma observe_latency_inv:
  "registry_inv s \<Longrightarrow> registry_inv (snd (observe_latency evt s))"
  by (simp add: registry_inv_def unready_states_def observe_latency_other)

lemma collect_tasks_inv:
  "registry_inv s \<Longrightarrow> TASK_EVENT_TO_STATE (drop 5 (e_type evt)) = Some st
   \<Longrightarrow> registry_inv (collect_tasks evt st s)"
  by (simp add: collect_tasks_def collect_unready_tasks_inv incr_ready_task_inv state_event_inv)

lemma process_event_inv:
  "registry_inv s \<Longrightarrow> registry_inv (snd (process_event evt s))"
proof (cases "group_from (e_type evt) = ''task''")
  case False
  then show "registry_inv s \<Longrightarrow> ?thesis" by (simp add: process_event_def)
next
  case True
  assume inv: "registry_inv s"
  show ?thesis
  proof (cases "TASK_EVENT_TO_STATE (drop 5 (e_type evt))")
    case None
    with True inv show ?thesis by (simp add: process_event_def)
  next
    case (Some st)
    obtain exc s1 where ol: "observe_latency evt s = (exc, s1)" by (cases "observe_latency evt s")
    have inv1: "registry_inv s1" using observe_latency_inv[OF inv, of evt] ol by simp
    show ?thesis
      using True Some inv inv1 ol
      by (cases exc) (simp_all add: process_event_def collect_tasks_inv)
  qed
qed

lemma capture_inv:
  "registry_inv s \<Longrightarrow> registry_inv (snd (capture evts s))"
proof (induction evts arbitrary: s)
  case Nil
  then show ?case by simp
next
  case (Cons evt evts)
  obtain exc s1 where pe: "process_event evt s = (exc, s1)" by (cases "process_event evt s")
  have "registry_inv s1" using process_event_inv[OF Cons.prems, of evt] pe by simp
  then show ?case using pe Cons.IH[of s1] by (cases exc) simp_all
qed

lemma new_monitor_inv: "registry_inv (new_monitor cap s)"
  by (simp add: registry_inv_def new_monitor_def unready_states_def)

lemma process_event_ready:
  "group_from (e_type evt) = ''task'' \<Longrightarrow> TASK_EVENT_TO_STATE (drop 5 (e_type evt)) = Some st
   \<Longrightarrow> st \<in> READY_STATES
   \<Longrightarrow> process_event evt s = (None, collect_unready_tasks (incr_ready_task evt st s))"
  by (auto simp: process_event_def collect_tasks_def READY_STATES_def)


lemma collect_unready_tasks_names_cong:
  "tasks s1 = tasks s \<Longrightarrow> known_states_names s1 = known_states_names s
   \<Longrightarrow> TASKS_NAME s1 = TASKS_NAME s
   \<Longrightarrow> TASKS_NAME (collect_unready_tasks s1) = TASKS_NAME (collect_unready_tasks s)"
proof -
  assume a: "tasks s1 = tasks s" "known_states_names s1 = known_states_names s"
    "TASKS_NAME s1 = TASKS_NAME s"
  have "unready_states_names s1 = unready_states_names s"
    using a(1) by (simp add: unready_states_names_def)
  then show ?thesis
    using a(2,3) by (simp add: collect_unready_tasks_def Let_def cong: if_cong)
qed

text \<open>
  C10. A terminal event for an id that is not in the registry is processed without an
  exception: \<^verbatim>\<open>tasks{state}\<close> of the terminal state goes up by exactly 1, the terminal
  path touches no \<^verbatim>\<open>tasks_by_name\<close> series (the gauge is what the aggregation pass alone
  would have made of it, and no series of that terminal state changes), no runtime and
  no latency is observed, and the registry gets no record.
\<close>

theorem terminal_event_unknown_id:
  assumes inv: "registry_inv s"
    and grp: "group_from (e_type evt) = ''task''"
    and cls: "TASK_EVENT_TO_STATE (drop 5 (e_type evt)) = Some st"
    and rdy: "st \<in> READY_STATES"
    and uid: "e_uuid evt = Some u"
    and absent: "map_of (tasks s) u = None"
  shows "\<exists>s'. process_event evt s = (None, s')
           \<and> TASKS s' st = Some (gauge_value (TASKS s) st + 1)
           \<and> TASKS_NAME s' = TASKS_NAME (collect_unready_tasks s)
           \<and> (\<forall>n. TASKS_NAME s' (st, n) = TASKS_NAME s (st, n))
           \<and> TASKS_RUNTIME s' = TASKS_RUNTIME s
           \<and> LATENCY s' = LATENCY s
           \<and> tasks s' = tasks s"
proof -
  let ?s1 = "s\<lparr>TASKS := gauge_inc (TASKS s) st\<rparr>"
  have i: "incr_ready_task evt st s = ?s1"
    using uid absent by (simp add: incr_ready_task_absent)
  have pe: "process_event evt s = (None, collect_unready_tasks ?s1)"
    using process_event_ready[OF grp cls rdy] i by simp
  have inv1: "registry_inv ?s1"
    using inv by (simp add: registry_inv_def unready_states_def)
  have t: "TASKS (collect_unready_tasks ?s1) st = Some (gauge_value (TASKS s) st + 1)"
    using collect_unready_tasks_ready[OF inv1 rdy] by (simp add: gauge_inc_def)
  have n: "TASKS_NAME (collect_unready_tasks ?s1) = TASKS_NAME (collect_unready_tasks s)"
    by (rule collect_unready_tasks_names_cong) simp_all
  have n2: "\<forall>n. TASKS_NAME (collect_unready_tasks ?s1) (st, n) = TASKS_NAME s (st, n)"
    using collect_unready_tasks_name_ready[OF inv1 rdy] by simp
  show ?thesis
    using pe t n n2 by (simp add: collect_unready_tasks_other)
qed

theorem terminal_event_unknown_id_witness:
  "registry_inv no_metrics \<and> group_from (e_type succeeded_evt) = ''task''
   \<and> TASK_EVENT_TO_STATE (drop 5 (e_type succeeded_evt)) = Some SUCCEEDED
   \<and> SUCCEEDED \<in> READY_STATES \<and> e_uuid succeeded_evt = Some ''id1''
   \<and> map_of (tasks no_metrics) ''id1'' = None
   \<and> (\<exists>s'. process_event succeeded_evt no_metrics = (None, s')
           \<and> TASKS s' SUCCEEDED = Some 1 \<and> TASKS_RUNTIME s' = [] \<and> tasks s' = [])"
proof -
  have inv: "registry_inv no_metrics"
    by (simp add: registry_inv_def no_metrics_def unready_states_def)
  have grp: "group_from (e_type succeeded_evt) = ''task''"
    by (simp add: succeeded_evt_def group_from_def)
  have cls: "TASK_EVENT_TO_STATE (drop 5 (e_type succeeded_evt)) = Some SUCCEEDED"
    by (simp add: succeeded_evt_def TASK_EVENT_TO_STATE_def)
  have rdy: "SUCCEEDED \<in> READY_STATES" by (simp add: READY_STATES_def)
  have uid: "e_uuid succeeded_evt = Some ''id1''" by (simp add: succeeded_evt_def)
  have absent: "map_of (tasks no_metrics) ''id1'' = None" by (simp add: no_metrics_def)
  have v: "gauge_value (TASKS no_metrics) SUCCEEDED = 0" "TASKS_RUNTIME no_metrics = []"
    "tasks no_metrics = []"
    by (simp_all add: gauge_value_def no_metrics_def)
  from terminal_event_unknown_id[OF inv grp cls rdy uid absent] v
  have "\<exists>s'. process_event succeeded_evt no_metrics = (None, s')
           \<and> TASKS s' SUCCEEDED = Some 1 \<and> TASKS_RUNTIME s' = [] \<and> tasks s' = []"
    by auto
  with inv grp cls rdy uid absent show ?thesis by blast
qed

section \<open>Terminal events for a tracked id\<close>


lemma incr_ready_task_keeps_inv_fields:
  "known_states (incr_ready_task evt st s) = known_states s"
  "known_states_names (incr_ready_task evt st s) = known_states_names s"
  by (simp_all add: incr_ready_task_def Let_def split: option.splits)



section \<open>Latency observations\<close>

lemma collect_tasks_latency: "LATENCY (collect_tasks evt st s) = LATENCY s"
  by (simp add: collect_tasks_def collect_unready_tasks_other state_event_other
                incr_ready_task_def Let_def split: option.splits)

text \<open>
  C2. For an event that carries \<^verbatim>\<open>uuid\<close> and \<^verbatim>\<open>local_received\<close>, in any state of the
  registry: processing it appends one observation to the latency histogram exactly when
  it is a \<^verbatim>\<open>STARTED\<close> task event and the record stored for its id is in state
  \<^verbatim>\<open>RECEIVED\<close>, and the value observed is the event's \<^verbatim>\<open>local_received\<close> minus the
  record's; with any other stored state, or no record, the histogram is unchanged.
\<close>

theorem latency_observed_iff_received:
  assumes uid: "e_uuid evt = Some u"
    and lr: "e_local_received evt = Some t1"
  shows "LATENCY (snd (process_event evt s)) =
           (case map_of (tasks s) u of
              None \<Rightarrow> LATENCY s
            | Some prev \<Rightarrow>
                if group_from (e_type evt) = ''task''
                   \<and> TASK_EVENT_TO_STATE (drop 5 (e_type evt)) = Some STARTED
                   \<and> t_state prev = RECEIVED
                then LATENCY s @ [t1 - t_local_received prev]
                else LATENCY s)"
proof (cases "group_from (e_type evt) = ''task''")
  case False
  then show ?thesis by (simp add: process_event_def split: option.splits)
next
  case grp: True
  show ?thesis
  proof (cases "TASK_EVENT_TO_STATE (drop 5 (e_type evt))")
    case None
    with grp show ?thesis by (simp add: process_event_def split: option.splits)
  next
    case (Some st)
    show ?thesis
    proof (cases "st = STARTED")
      case False
      with grp Some show ?thesis
        by (simp add: process_event_def collect_tasks_latency split: option.splits)
    next
      case True
      with grp Some uid lr show ?thesis
        by (simp add: process_event_def observe_latency_def collect_tasks_latency
                 split: option.splits)
    qed
  qed
qed

theorem latency_observed_iff_received_witness:
  "e_uuid started_evt = Some ''id1'' \<and> e_local_received started_evt = Some 3
   \<and> LATENCY (snd (process_event started_evt
                      (snd (process_event received_evt no_metrics)))) = [3 - 1]
   \<and> LATENCY (snd (process_event started_evt
                      (snd (process_event retried_evt
                         (snd (process_event received_evt no_metrics)))))) = []"
proof -
  have uid: "e_uuid started_evt = Some ''id1''" by (simp add: started_evt_def)
  have lr: "e_local_received started_evt = Some 3" by (simp add: started_evt_def)
  have st: "group_from (e_type started_evt) = ''task''"
    "TASK_EVENT_TO_STATE (drop 5 (e_type started_evt)) = Some STARTED"
    by (simp_all add: started_evt_def group_from_def TASK_EVENT_TO_STATE_def)
  obtain s1 where pe1: "process_event received_evt no_metrics = (None, s1)"
    and ts1: "tasks s1 = [(''id1'', \<lparr>t_state = RECEIVED, t_name = Some ''add'',
                                    t_local_received = 1\<rparr>)]"
    and l1: "LATENCY s1 = []"
    by (simp add: process_event_def received_evt_def group_from_def
          TASK_EVENT_TO_STATE_def collect_tasks_def READY_STATES_def state_event_def
          no_metrics_def collect_unready_tasks_other)
  obtain s2 where pe2: "process_event retried_evt s1 = (None, s2)"
    and ts2: "tasks s2 = [(''id1'', \<lparr>t_state = RETRIED, t_name = Some ''add'',
                                    t_local_received = 2\<rparr>)]"
    and l2: "LATENCY s2 = []"
    by (simp add: process_event_def retried_evt_def group_from_def
          TASK_EVENT_TO_STATE_def collect_tasks_def READY_STATES_def state_event_def
          collect_unready_tasks_other ts1 l1)
  have a: "LATENCY (snd (process_event started_evt s1)) = [3 - 1]"
    using latency_observed_iff_received[OF uid lr, of s1] by (simp add: ts1 l1 st)
  have b: "LATENCY (snd (process_event started_evt s2)) = []"
    using latency_observed_iff_received[OF uid lr, of s2] by (simp add: ts2 l2 st)
  show ?thesis using uid lr a b by (simp add: pe1 pe2)
qed

section \<open>Terminal counters never go down\<close>

lemma incr_ready_task_TASKS: "TASKS (incr_ready_task evt st s) = gauge_inc (TASKS s) st"
  by (simp add: incr_ready_task_def Let_def split: option.splits)

lemma gauge_inc_mono: "gauge_value g l \<le> gauge_value (gauge_inc g k) l"
  by (simp add: gauge_inc_def gauge_value_def)

lemma collect_tasks_ready_mono:
  assumes inv: "registry_inv s"
    and cls: "TASK_EVENT_TO_STATE (drop 5 (e_type evt)) = Some st'"
    and rdy: "st \<in> READY_STATES"
  shows "gauge_value (TASKS s) st \<le> gauge_value (TASKS (collect_tasks evt st' s)) st"
proof (cases "st' \<in> READY_STATES")
  case True
  have "TASKS (collect_tasks evt st' s) st = TASKS (incr_ready_task evt st' s) st"
    using True collect_unready_tasks_ready[OF incr_ready_task_inv[OF inv] rdy]
    by (simp add: collect_tasks_def)
  then show ?thesis
    using gauge_inc_mono[of "TASKS s" st st']
    by (simp add: gauge_value_def incr_ready_task_TASKS)
next
  case False
  have "TASKS (collect_tasks evt st' s) st = TASKS (state_event evt s) st"
    using False collect_unready_tasks_ready[OF state_event_inv[OF inv cls False] rdy]
    by (simp add: collect_tasks_def)
  then show ?thesis by (simp add: gauge_value_def state_event_other)
qed

lemma process_event_ready_mono:
  assumes inv: "registry_inv s" and rdy: "st \<in> READY_STATES"
  shows "gauge_value (TASKS s) st \<le> gauge_value (TASKS (snd (process_event evt s))) st"
proof (cases "group_from (e_type evt) = ''task''")
  case False
  then show ?thesis by (simp add: process_event_def)
next
  case grp: True
  show ?thesis
  proof (cases "TASK_EVENT_TO_STATE (drop 5 (e_type evt))")
    case None
    with grp show ?thesis by (simp add: process_event_def)
  next
    case (Some st')
    obtain exc s1 where ol: "observe_latency evt s = (exc, s1)"
      by (cases "observe_latency evt s")
    have inv1: "registry_inv s1" using observe_latency_inv[OF inv, of evt] ol by simp
    have t1: "TASKS s1 = TASKS s" using observe_latency_other(4)[of evt s] ol by simp
    show ?thesis
      using grp Some ol t1 collect_tasks_ready_mono[OF inv Some rdy]
        collect_tasks_ready_mono[OF inv1 Some rdy]
      by (cases exc) (auto simp: process_event_def)
  qed
qed

text \<open>
  C9. From any state that satisfies the registry invariant (the state after
  \<^verbatim>\<open>__init__\<close> does, and every processed event keeps it), and for every sequence of
  events handed to \<^verbatim>\<open>_process_event\<close>: \<^verbatim>\<open>tasks{state}\<close> of a terminal state never goes
  down, no terminal state is in the known-states set afterwards, and a further
  aggregation pass leaves the terminal label as it is.
\<close>

theorem terminal_counters_monotone:
  assumes inv: "registry_inv s" and rdy: "st \<in> READY_STATES"
  shows "gauge_value (TASKS s) st \<le> gauge_value (TASKS (snd (capture evts s))) st
         \<and> known_states (snd (capture evts s)) \<inter> READY_STATES = {}
         \<and> TASKS (collect_unready_tasks (snd (capture evts s))) st
             = TASKS (snd (capture evts s)) st"
proof -
  have mono: "gauge_value (TASKS s) st \<le> gauge_value (TASKS (snd (capture evts s))) st"
    using inv
  proof (induction evts arbitrary: s)
    case Nil
    then show ?case by simp
  next
    case (Cons evt evts)
    obtain exc s1 where pe: "process_event evt s = (exc, s1)"
      by (cases "process_event evt s")
    have inv1: "registry_inv s1" using process_event_inv[OF Cons.prems, of evt] pe by simp
    have step: "gauge_value (TASKS s) st \<le> gauge_value (TASKS s1) st"
      using process_event_ready_mono[OF Cons.prems rdy, of evt] pe by simp
    show ?case
    proof (cases exc)
      case None
      then show ?thesis using pe step Cons.IH[OF inv1] by simp
    next
      case (Some e)
      then show ?thesis using pe step by simp
    qed
  qed
  have inv': "registry_inv (snd (capture evts s))" by (rule capture_inv[OF inv])
  have ks: "known_states (snd (capture evts s)) \<inter> READY_STATES = {}"
    using inv' by (simp add: registry_inv_def)
  show ?thesis
    using mono ks collect_unready_tasks_ready[OF inv' rdy] by simp
qed

theorem terminal_counters_monotone_witness:
  "registry_inv (new_monitor 2 no_metrics) \<and> SUCCEEDED \<in> READY_STATES
   \<and> gauge_value (TASKS (new_monitor 2 no_metrics)) SUCCEEDED
       \<le> gauge_value (TASKS (snd (capture [received_evt, started_evt, succeeded_evt]
                                       (new_monitor 2 no_metrics)))) SUCCEEDED
   \<and> known_states (snd (capture [received_evt, started_evt, succeeded_evt]
                            (new_monitor 2 no_metrics))) \<inter> READY_STATES = {}"
proof -
  have rdy: "SUCCEEDED \<in> READY_STATES" by (simp add: READY_STATES_def)
  show ?thesis
    using new_monitor_inv[of 2 no_metrics] rdy
      terminal_counters_monotone[OF new_monitor_inv[of 2 no_metrics] rdy,
        of "[received_evt, started_evt, succeeded_evt]"]
    by blast
qed

section \<open>The registry bound\<close>

lemma state_event_length:
  "0 < max_tasks_in_memory s \<Longrightarrow> length (tasks s) \<le> max_tasks_in_memory s
   \<Longrightarrow> length (tasks (state_event evt s)) \<le> max_tasks_in_memory s"
  by (auto simp: state_event_def split: option.splits)

lemma incr_ready_task_length:
  "length (tasks (incr_ready_task evt st s)) \<le> length (tasks s)"
  by (simp add: incr_ready_task_def Let_def registry_pop_def split: option.splits)

lemma incr_ready_task_cap:
  "max_tasks_in_memory (incr_ready_task evt st s) = max_tasks_in_memory s"
  by (simp add: incr_ready_task_def Let_def split: option.splits)

lemma collect_tasks_cap:
  "max_tasks_in_memory (collect_tasks evt st s) = max_tasks_in_memory s"
  by (simp add: collect_tasks_def collect_unready_tasks_other state_event_other
                incr_ready_task_cap)

lemma collect_tasks_length:
  "0 < max_tasks_in_memory s \<Longrightarrow> length (tasks s) \<le> max_tasks_in_memory s
   \<Longrightarrow> length (tasks (collect_tasks evt st s)) \<le> max_tasks_in_memory s"
  using state_event_length[of s evt] incr_ready_task_length[of evt st s]
  by (simp add: collect_tasks_def collect_unready_tasks_other)

lemma process_event_cap:
  "max_tasks_in_memory (snd (process_event evt s)) = max_tasks_in_memory s"
proof -
  obtain exc s1 where ol: "observe_latency evt s = (exc, s1)"
    by (cases "observe_latency evt s")
  have "max_tasks_in_memory s1 = max_tasks_in_memory s"
    using observe_latency_other(7)[of evt s] ol by simp
  then show ?thesis
    using ol by (cases exc) (auto simp: process_event_def collect_tasks_cap split: option.splits)
qed

lemma process_event_length:
  assumes cap: "0 < max_tasks_in_memory s" and bound: "length (tasks s) \<le> max_tasks_in_memory s"
  shows "length (tasks (snd (process_event evt s))) \<le> max_tasks_in_memory s"
proof -
  obtain exc s1 where ol: "observe_latency evt s = (exc, s1)"
    by (cases "observe_latency evt s")
  have c1: "max_tasks_in_memory s1 = max_tasks_in_memory s"
    using observe_latency_other(7)[of evt s] ol by simp
  have t1: "tasks s1 = tasks s"
    using observe_latency_other(1)[of evt s] ol by simp
  have "\<And>st. length (tasks (collect_tasks evt st s1)) \<le> max_tasks_in_memory s"
    using collect_tasks_length[of s1 evt] cap bound c1 t1 by simp
  moreover have "\<And>st. length (tasks (collect_tasks evt st s)) \<le> max_tasks_in_memory s"
    using collect_tasks_length[of s evt] cap bound by simp
  ultimately show ?thesis
    using ol bound t1
    by (cases exc) (auto simp: process_event_def split: option.splits)
qed

lemma capture_length:
  "0 < max_tasks_in_memory s \<Longrightarrow> length (tasks s) \<le> max_tasks_in_memory s
   \<Longrightarrow> length (tasks (snd (capture evts s))) \<le> max_tasks_in_memory s"
proof (induction evts arbitrary: s)
  case Nil
  then show ?case by simp
next
  case (Cons evt evts)
  obtain exc s1 where pe: "process_event evt s = (exc, s1)"
    by (cases "process_event evt s")
  have c1: "max_tasks_in_memory s1 = max_tasks_in_memory s"
    using process_event_cap[of evt s] pe by simp
  have l1: "length (tasks s1) \<le> max_tasks_in_memory s"
    using process_event_length[OF Cons.prems, of evt] pe by simp
  show ?case
    using pe c1 l1 Cons.IH[of s1] Cons.prems(1) by (cases exc) simp_all
qed

lemma process_event_unready:
  assumes grp: "group_from (e_type evt) = ''task''"
    and cls: "TASK_EVENT_TO_STATE (drop 5 (e_type evt)) = Some st"
    and unr: "st \<notin> READY_STATES"
    and absent: "(case e_uuid evt of None \<Rightarrow> None | Some u \<Rightarrow> map_of (tasks s) u) = None"
  shows "process_event evt s = (None, collect_unready_tasks (state_event evt s))"
  using assms by (auto simp: process_event_def collect_tasks_def observe_latency_def)

text \<open>
  C6. With a capacity of at least 1 and a registry within it: after any sequence of
  events the registry still holds at most \<^verbatim>\<open>max_tasks_in_memory\<close> records. When the
  registry is full, a well-formed non-terminal event for a new id is processed without
  an exception, drops exactly the oldest record and appends the new one, so the size
  stays at the capacity; no terminal counter of \<^verbatim>\<open>tasks\<close> or \<^verbatim>\<open>tasks_by_name\<close> changes
  and no runtime or latency is observed for the evicted task.
\<close>

theorem registry_bounded_with_eviction:
  assumes inv: "registry_inv s"
    and cap: "0 < max_tasks_in_memory s"
    and bound: "length (tasks s) \<le> max_tasks_in_memory s"
  shows "length (tasks (snd (capture evts s))) \<le> max_tasks_in_memory s
         \<and> (\<forall>evt u t1 st.
               length (tasks s) = max_tasks_in_memory s
               \<and> group_from (e_type evt) = ''task''
               \<and> TASK_EVENT_TO_STATE (drop 5 (e_type evt)) = Some st
               \<and> st \<notin> READY_STATES
               \<and> e_uuid evt = Some u \<and> e_local_received evt = Some t1
               \<and> map_of (tasks s) u = None
               \<longrightarrow> (\<exists>s'. process_event evt s = (None, s')
                      \<and> tasks s' = tl (tasks s)
                           @ [(u, \<lparr>t_state = st, t_name = e_name evt, t_local_received = t1\<rparr>)]
                      \<and> length (tasks s') = max_tasks_in_memory s
                      \<and> (\<forall>r n. r \<in> READY_STATES \<longrightarrow>
                             TASKS s' r = TASKS s r \<and> TASKS_NAME s' (r, n) = TASKS_NAME s (r, n))
                      \<and> TASKS_RUNTIME s' = TASKS_RUNTIME s
                      \<and> LATENCY s' = LATENCY s))"
proof (intro conjI allI impI)
  show "length (tasks (snd (capture evts s))) \<le> max_tasks_in_memory s"
    by (rule capture_length[OF cap bound])
next
  fix evt :: event and u :: string and t1 :: real and st :: celery_state
  assume a: "length (tasks s) = max_tasks_in_memory s
               \<and> group_from (e_type evt) = ''task''
               \<and> TASK_EVENT_TO_STATE (drop 5 (e_type evt)) = Some st
               \<and> st \<notin> READY_STATES
               \<and> e_uuid evt = Some u \<and> e_local_received evt = Some t1
               \<and> map_of (tasks s) u = None"
  let ?s1 = "state_event evt s"
  let ?s' = "collect_unready_tasks ?s1"
  have pe: "process_event evt s = (None, ?s')"
    using a process_event_unready[of evt st s] by simp
  have ts: "tasks ?s1 = tl (tasks s)
             @ [(u, \<lparr>t_state = st, t_name = e_name evt, t_local_received = t1\<rparr>)]"
    using a by (simp add: state_event_def)
  have len: "length (tasks ?s1) = max_tasks_in_memory s"
    using a cap by (simp add: ts)
  have inv1: "registry_inv ?s1"
    using a state_event_inv[OF inv, of evt st] by simp
  have m: "\<forall>r n. r \<in> READY_STATES \<longrightarrow>
             TASKS ?s' r = TASKS s r \<and> TASKS_NAME ?s' (r, n) = TASKS_NAME s (r, n)"
    using collect_unready_tasks_ready[OF inv1] collect_unready_tasks_name_ready[OF inv1]
    by (simp add: state_event_other)
  show "\<exists>s'. process_event evt s = (None, s')
          \<and> tasks s' = tl (tasks s)
               @ [(u, \<lparr>t_state = st, t_name = e_name evt, t_local_received = t1\<rparr>)]
          \<and> length (tasks s') = max_tasks_in_memory s
          \<and> (\<forall>r n. r \<in> READY_STATES \<longrightarrow>
                 TASKS s' r = TASKS s r \<and> TASKS_NAME s' (r, n) = TASKS_NAME s (r, n))
          \<and> TASKS_RUNTIME s' = TASKS_RUNTIME s
          \<and> LATENCY s' = LATENCY s"
    using pe ts len m
    by (simp add: collect_unready_tasks_other state_event_other)
qed

theorem registry_bounded_with_eviction_witness:
  "registry_inv full_state \<and> 0 < max_tasks_in_memory full_state
   \<and> length (tasks full_state) = max_tasks_in_memory full_state
   \<and> (\<exists>s'. process_event received_evt2 full_state = (None, s')
          \<and> tasks s' = [(''id1'', \<lparr>t_state = STARTED, t_name = Some ''add'',
                                     t_local_received = 3\<rparr>),
                         (''id2'', \<lparr>t_state = RECEIVED, t_name = Some ''mul'',
                                     t_local_received = 5\<rparr>)]
          \<and> TASKS s' SUCCEEDED = Some 4
          \<and> TASKS_RUNTIME s' = [] \<and> LATENCY s' = [])"
proof -
  have inv: "registry_inv full_state"
    by (simp add: registry_inv_def full_state_def no_metrics_def unready_states_def
                  READY_STATES_def)
  have cap: "0 < max_tasks_in_memory full_state" by (simp add: full_state_def)
  have len: "length (tasks full_state) = max_tasks_in_memory full_state"
    by (simp add: full_state_def)
  have bound: "length (tasks full_state) \<le> max_tasks_in_memory full_state"
    using len by simp
  have h: "group_from (e_type received_evt2) = ''task''"
    "TASK_EVENT_TO_STATE (drop 5 (e_type received_evt2)) = Some RECEIVED"
    "RECEIVED \<notin> READY_STATES" "SUCCEEDED \<in> READY_STATES"
    "e_uuid received_evt2 = Some ''id2''" "e_local_received received_evt2 = Some 5"
    "map_of (tasks full_state) ''id2'' = None"
    by (simp_all add: received_evt2_def group_from_def TASK_EVENT_TO_STATE_def
                      READY_STATES_def full_state_def)
  have v: "tl (tasks full_state) = [(''id1'', \<lparr>t_state = STARTED, t_name = Some ''add'',
                                                t_local_received = 3\<rparr>)]"
    "e_name received_evt2 = Some ''mul''" "TASKS full_state SUCCEEDED = Some 4"
    "TASKS_RUNTIME full_state = []" "LATENCY full_state = []"
    by (simp_all add: full_state_def received_evt2_def no_metrics_def)
  from registry_bounded_with_eviction[OF inv cap bound, of "[]"] len h
  have "\<exists>s'. process_event received_evt2 full_state = (None, s')
          \<and> tasks s' = tl (tasks full_state)
               @ [(''id2'', \<lparr>t_state = RECEIVED, t_name = e_name received_evt2,
                              t_local_received = 5\<rparr>)]
          \<and> length (tasks s') = max_tasks_in_memory full_state
          \<and> (\<forall>r n. r \<in> READY_STATES \<longrightarrow>
                 TASKS s' r = TASKS full_state r
                 \<and> TASKS_NAME s' (r, n) = TASKS_NAME full_state (r, n))
          \<and> TASKS_RUNTIME s' = TASKS_RUNTIME full_state
          \<and> LATENCY s' = LATENCY full_state"
    by blast
  then have "\<exists>s'. process_event received_evt2 full_state = (None, s')
          \<and> tasks s' = [(''id1'', \<lparr>t_state = STARTED, t_name = Some ''add'',
                                     t_local_received = 3\<rparr>),
                         (''id2'', \<lparr>t_state = RECEIVED, t_name = Some ''mul'',
                                     t_local_received = 5\<rparr>)]
          \<and> TASKS s' SUCCEEDED = Some 4
          \<and> TASKS_RUNTIME s' = [] \<and> LATENCY s' = []"
    using h(4) by (auto simp: v)
  with inv cap len show ?thesis by blast
qed

section \<open>The queue names of a sampling pass\<close>

lemma node_names_iff:
  "node_names node acc = Inr r
   \<longleftrightarrow> (\<exists>ns. map (\<lambda>q. map_of q ''name'') node = map Some ns \<and> r = acc @ ns)"
proof (induction node arbitrary: acc)
  case Nil
  then show ?case by auto
next
  case (Cons q node)
  show ?case
  proof (cases "map_of q ''name''")
    case None
    then show ?thesis by (auto simp: map_eq_Cons_conv)
  next
    case (Some n)
    show ?thesis
    proof
      assume "node_names (q # node) acc = Inr r"
      then obtain ns where "map (\<lambda>q. map_of q ''name'') node = map Some ns" "r = (acc @ [n]) @ ns"
        using Some Cons.IH[of "acc @ [n]"] by auto
      then show "\<exists>ns. map (\<lambda>q. map_of q ''name'') (q # node) = map Some ns \<and> r = acc @ ns"
        using Some by (intro exI[of _ "n # ns"]) simp
    next
      assume "\<exists>ns. map (\<lambda>q. map_of q ''name'') (q # node) = map Some ns \<and> r = acc @ ns"
      then obtain ns where ns: "map (\<lambda>q. map_of q ''name'') (q # node) = map Some ns" "r = acc @ ns"
        by blast
      then obtain ns' where "ns = n # ns'" "map (\<lambda>q. map_of q ''name'') node = map Some ns'"
        using Some by (cases ns) auto
      then show "node_names (q # node) acc = Inr r"
        using Some ns(2) Cons.IH[of "acc @ [n]"] by auto
    qed
  qed
qed

lemma nodes_names_iff:
  "nodes_names nodes acc = Inr r
   \<longleftrightarrow> (\<exists>ns. map (\<lambda>q. map_of q ''name'') (concat nodes) = map Some ns \<and> r = acc @ ns)"
proof (induction nodes arbitrary: acc r)
  case Nil
  then show ?case by auto
next
  case (Cons node nodes)
  show ?case
  proof
    assume a: "nodes_names (node # nodes) acc = Inr r"
    then obtain r1 where r1: "node_names node acc = Inr r1" "nodes_names nodes r1 = Inr r"
      by (auto split: sum.splits)
    obtain ns1 where ns1: "map (\<lambda>q. map_of q ''name'') node = map Some ns1" "r1 = acc @ ns1"
      using r1(1) node_names_iff by blast
    obtain ns2 where ns2: "map (\<lambda>q. map_of q ''name'') (concat nodes) = map Some ns2" "r = r1 @ ns2"
      using r1(2) Cons.IH by blast
    show "\<exists>ns. map (\<lambda>q. map_of q ''name'') (concat (node # nodes)) = map Some ns \<and> r = acc @ ns"
      using ns1 ns2 by (intro exI[of _ "ns1 @ ns2"]) simp
  next
    assume "\<exists>ns. map (\<lambda>q. map_of q ''name'') (concat (node # nodes)) = map Some ns \<and> r = acc @ ns"
    then obtain ns where ns: "map (\<lambda>q. map_of q ''name'') node @ map (\<lambda>q. map_of q ''name'') (concat nodes) = map Some ns"
      "r = acc @ ns" by auto
    let ?k = "length node"
    have l: "length node \<le> length ns" using arg_cong[OF ns(1), of length] by simp
    have n1: "map (\<lambda>q. map_of q ''name'') node = map Some (take ?k ns)"
      using arg_cong[OF ns(1), of "take ?k"] by (simp add: take_map)
    have n2: "map (\<lambda>q. map_of q ''name'') (concat nodes) = map Some (drop ?k ns)"
      using arg_cong[OF ns(1), of "drop ?k"] by (simp add: drop_map)
    have a: "node_names node acc = Inr (acc @ take ?k ns)"
      using n1 node_names_iff by blast
    have b: "nodes_names nodes (acc @ take ?k ns) = Inr ((acc @ take ?k ns) @ drop ?k ns)"
      using n2 Cons.IH by blast
    show "nodes_names (node # nodes) acc = Inr r"
      using a b ns(2) by simp
  qed
qed

text \<open>
  C4, as stated, fails: two workers that consume the same queue put its name into the
  collection twice.
\<close>

theorem queue_names_not_deduplicated:
  "get_queue_names (Inr shared_queue) = Inr [''celery'', ''celery'']
   \<and> \<not> distinct [''celery'', ''celery'']"
  by (simp add: get_queue_names_def shared_queue_def)

text \<open>
  C4, amended. \<^verbatim>\<open>get_queue_names\<close> returns a list exactly when every queue descriptor
  of every worker has a \<^verbatim>\<open>name\<close>, and the list then holds the names of all descriptors
  of all workers, in order and with repetitions: a queue consumed by several workers
  appears once for each of them.
\<close>

theorem get_queue_names_all_descriptors:
  "get_queue_names (Inr active_queues) = Inr names
   \<longleftrightarrow> map (\<lambda>queue. map_of queue ''name'') (concat (map snd active_queues)) = map Some names"
  by (simp add: get_queue_names_def nodes_names_iff)

section \<open>The baseline reset after a stream failure\<close>

lemma setup_metrics_registry:
  "tasks (setup_metrics r a s) = tasks s"
  "max_tasks_in_memory (setup_metrics r a s) = max_tasks_in_memory s"
  "known_states (setup_metrics r a s) = known_states s"
  "known_states_names (setup_metrics r a s) = known_states_names s"
  "TASKS_RUNTIME (setup_metrics r a s) = TASKS_RUNTIME s"
  "LATENCY (setup_metrics r a s) = LATENCY s"
  "WORKERS (setup_metrics r a s) = 0"
  by (simp_all add: setup_metrics_def Let_def split: sum.splits)

lemma setup_metrics_inv: "registry_inv s \<Longrightarrow> registry_inv (setup_metrics r a s)"
  by (simp add: registry_inv_def unready_states_def setup_metrics_registry)

lemma setup_metrics_ok:
  "TASKS (setup_metrics (Inr r) (Inr a) s) state
     = (if state \<in> ALL_STATES then Some 0 else TASKS s state)"
  "TASKS_NAME (setup_metrics (Inr r) (Inr a) s) (state, n)
     = (if state \<in> ALL_STATES \<and> n \<in> set (concat (map snd r)) then Some 0
        else TASKS_NAME s (state, n))"
  by (auto simp: setup_metrics_def Let_def)

lemma setup_metrics_failed:
  "isl r \<or> isl a \<Longrightarrow> TASKS (setup_metrics r a s) state = map_option (\<lambda>v. 0) (TASKS s state)"
  "isl r \<or> isl a \<Longrightarrow> TASKS_NAME (setup_metrics r a s) l = map_option (\<lambda>v. 0) (TASKS_NAME s l)"
  by (auto simp: setup_metrics_def Let_def reset_metrics_def split: sum.splits option.splits)

lemma monitor_iteration_failure:
  assumes conn: "connection x = None"
    and cap: "capture (delivered x)
                (setup_metrics (registered_on_connect x) (active_on_connect x) s) = (exc, s2)"
    and fail: "exc \<noteq> None \<or> stream_failure x \<noteq> None"
  shows "monitor_iteration x s
           = setup_metrics (registered_on_failure x) (active_on_failure x) s2"
  using assms by (cases exc; cases "stream_failure x") (auto simp: monitor_iteration_def)

text \<open>
  C8, as stated, fails: when introspection succeeds, the reset after a stream failure
  leaves a published \<^verbatim>\<open>tasks_by_name\<close> series whose name is not among the broker's
  registered tasks at its old value.
\<close>

theorem reset_keeps_unregistered_name:
  "TASKS_NAME stale_state (SUCCEEDED, ''old_task'') = Some 4
   \<and> stream_failure lost_stream = Some BrokerError
   \<and> TASKS_NAME (monitor_iteration lost_stream stale_state) (SUCCEEDED, ''old_task'') = Some 4
   \<and> TASKS_NAME (monitor [lost_stream] stale_state) (SUCCEEDED, ''old_task'') \<noteq> Some 0"
  by (simp add: monitor_iteration_def lost_stream_def stale_state_def no_metrics_def
                setup_metrics_def Let_def ALL_STATES_def)

text \<open>
  C8, amended. When the stream of a session fails (a handler raises, or \<^verbatim>\<open>capture\<close>
  ends with an exception), \<^verbatim>\<open>setup_metrics\<close> runs on the state the failure left, and the
  events of all later sessions are processed from its result. It sets the workers
  gauge to zero and leaves the registry alone. When introspection succeeds it sets
  \<^verbatim>\<open>tasks{state}\<close> to zero for every state of \<^verbatim>\<open>ALL_STATES\<close> and
  \<^verbatim>\<open>tasks_by_name{state,name}\<close> to zero for those states and the registered task names,
  and leaves every other series as it was; when introspection fails it sets every
  series of the two gauges that has been published to zero.
\<close>

theorem baseline_reset_after_failure:
  assumes conn: "connection x = None"
    and cap: "capture (delivered x)
                (setup_metrics (registered_on_connect x) (active_on_connect x) s) = (exc, s2)"
    and fail: "exc \<noteq> None \<or> stream_failure x \<noteq> None"
  shows "\<exists>s3. monitor_iteration x s = s3 \<and> monitor (x # xs) s = monitor xs s3
           \<and> WORKERS s3 = 0 \<and> tasks s3 = tasks s2
           \<and> (\<forall>r a. registered_on_failure x = Inr r \<and> active_on_failure x = Inr a \<longrightarrow>
                 (\<forall>state n.
                    TASKS s3 state = (if state \<in> ALL_STATES then Some 0 else TASKS s2 state)
                    \<and> TASKS_NAME s3 (state, n)
                        = (if state \<in> ALL_STATES \<and> n \<in> set (concat (map snd r))
                           then Some 0 else TASKS_NAME s2 (state, n))))
           \<and> (isl (registered_on_failure x) \<or> isl (active_on_failure x) \<longrightarrow>
                 (\<forall>state l.
                    TASKS s3 state = map_option (\<lambda>v. 0) (TASKS s2 state)
                    \<and> TASKS_NAME s3 l = map_option (\<lambda>v. 0) (TASKS_NAME s2 l)))"
proof -
  let ?s3 = "setup_metrics (registered_on_failure x) (active_on_failure x) s2"
  have it: "monitor_iteration x s = ?s3"
    by (rule monitor_iteration_failure[OF conn cap fail])
  have ok: "\<forall>r a. registered_on_failure x = Inr r \<and> active_on_failure x = Inr a \<longrightarrow>
                 (\<forall>state n.
                    TASKS ?s3 state = (if state \<in> ALL_STATES then Some 0 else TASKS s2 state)
                    \<and> TASKS_NAME ?s3 (state, n)
                        = (if state \<in> ALL_STATES \<and> n \<in> set (concat (map snd r))
                           then Some 0 else TASKS_NAME s2 (state, n)))"
  proof (intro allI impI)
    fix r a state n
    assume "registered_on_failure x = Inr r \<and> active_on_failure x = Inr a"
    then have e: "?s3 = setup_metrics (Inr r) (Inr a) s2" by simp
    show "TASKS ?s3 state = (if state \<in> ALL_STATES then Some 0 else TASKS s2 state)
          \<and> TASKS_NAME ?s3 (state, n)
              = (if state \<in> ALL_STATES \<and> n \<in> set (concat (map snd r))
                 then Some 0 else TASKS_NAME s2 (state, n))"
      unfolding e using setup_metrics_ok(1)[of r a s2 state] setup_metrics_ok(2)[of r a s2 state n]
      by blast
  qed
  have bad: "isl (registered_on_failure x) \<or> isl (active_on_failure x) \<longrightarrow>
                 (\<forall>state l.
                    TASKS ?s3 state = map_option (\<lambda>v. 0) (TASKS s2 state)
                    \<and> TASKS_NAME ?s3 l = map_option (\<lambda>v. 0) (TASKS_NAME s2 l))"
    using setup_metrics_failed[of "registered_on_failure x" "active_on_failure x" s2]
    by blast
  have w: "WORKERS ?s3 = 0" and t: "tasks ?s3 = tasks s2"
    by (rule setup_metrics_registry)+
  have m: "monitor (x # xs) s = monitor xs ?s3" by (simp add: it)
  show ?thesis
    using it m w t ok bad by blast
qed

theorem baseline_reset_after_failure_witness:
  "connection lost_broker = None
   \<and> stream_failure lost_broker = Some BrokerError
   \<and> isl (registered_on_failure lost_broker)
   \<and> TASKS_NAME stale_state (SUCCEEDED, ''old_task'') = Some 4
   \<and> WORKERS stale_state = 3
   \<and> WORKERS (monitor_iteration lost_broker stale_state) = 0
   \<and> TASKS (monitor_iteration lost_broker stale_state) SUCCEEDED = Some 0
   \<and> TASKS_NAME (monitor_iteration lost_broker stale_state) (SUCCEEDED, ''old_task'') = Some 0
   \<and> TASKS_NAME (monitor_iteration lost_broker stale_state) (SUCCEEDED, ''other'') = None"
proof -
  let ?s1 = "setup_metrics (registered_on_connect lost_broker) (active_on_connect lost_broker)
               stale_state"
  have conn: "connection lost_broker = None"
    and sf: "stream_failure lost_broker = Some BrokerError"
    and il: "isl (registered_on_failure lost_broker)"
    by (simp_all add: lost_broker_def lost_stream_def)
  have cap: "capture (delivered lost_broker) ?s1 = (None, ?s1)"
    by (simp add: lost_broker_def lost_stream_def)
  have fail: "(None :: py_error option) \<noteq> None \<or> stream_failure lost_broker \<noteq> None"
    using sf by simp
  have v: "TASKS_NAME stale_state (SUCCEEDED, ''old_task'') = Some 4" "WORKERS stale_state = 3"
    by (simp_all add: stale_state_def no_metrics_def)
  have s1: "TASKS ?s1 SUCCEEDED = Some 0" "TASKS_NAME ?s1 (SUCCEEDED, ''old_task'') = Some 4"
    "TASKS_NAME ?s1 (SUCCEEDED, ''other'') = None"
    by (simp_all add: lost_broker_def lost_stream_def setup_metrics_ok ALL_STATES_def
                      stale_state_def no_metrics_def)
  from baseline_reset_after_failure[OF conn cap fail, of "[]"] il
  have "WORKERS (monitor_iteration lost_broker stale_state) = 0
      \<and> (\<forall>state l. TASKS (monitor_iteration lost_broker stale_state) state
                       = map_option (\<lambda>v. 0) (TASKS ?s1 state)
                   \<and> TASKS_NAME (monitor_iteration lost_broker stale_state) l
                       = map_option (\<lambda>v. 0) (TASKS_NAME ?s1 l))"
    by blast
  then show ?thesis using conn sf il v s1 by simp
qed

section \<open>Stale queue labels\<close>























section \<open>Task events that lack a field\<close>






end
